theory Spec2Isabelle
  imports Complex_Main "HOL-Library.Word"
begin

unbundle bit_operations_syntax

section \<open>Python values used by mirror\_controller.py\<close>

text \<open>
  Python integers are unbounded, so they are \<open>int\<close>; \<open>&\<close> on them is the two's
  complement conjunction, which is \<open>AND\<close> on \<open>int\<close>. Exceptions are values of
  \<open>py_error\<close>, and a function that can raise returns \<open>py_error + 'a\<close>.
\<close>

datatype py_error =
    RuntimeError string
  | TypeError
  | ValueError
  | OverflowError
  | IndexError
  | Full
  | Empty

text \<open>
  A Python float is a finite rational, an infinity or NaN. Only \<open>int(...)\<close> is applied
  to floats that come out of \<open>json.loads\<close>.
\<close>

datatype pyfloat = Finite rat | Infinity bool | NaN

datatype json =
    JNull
  | JBool bool
  | JInt int
  | JFloat pyfloat
  | JStr string
  | JList "json list"
  | JObj "(string \<times> json) list"

text \<open>\<open>d.get(key, default)\<close> on a dictionary given by its items.\<close>

definition dict_get :: "(string \<times> json) list \<Rightarrow> string \<Rightarrow> json \<Rightarrow> json" where
  "dict_get d k dflt = (case map_of d k of Some v \<Rightarrow> v | None \<Rightarrow> dflt)"

text \<open>
  \<open>str.strip()\<close>: the ASCII white space characters (tab, line feed, vertical tab, form
  feed, carriage return, the four separators \<open>0x1c..0x1f\<close> and the space).
\<close>

definition is_space :: "char \<Rightarrow> bool" where
  "is_space c = (let k = (of_char c :: nat) in (9 \<le> k \<and> k \<le> 13) \<or> (28 \<le> k \<and> k \<le> 32))"

definition strip :: "string \<Rightarrow> string" where
  "strip s = rev (dropWhile is_space (rev (dropWhile is_space s)))"

text \<open>
  \<open>int(s)\<close> for a string: surrounding white space, an optional sign, then decimal digits
  in which single underscores may separate digits. Anything else is a \<open>ValueError\<close>.
\<close>

definition is_digit :: "char \<Rightarrow> bool" where
  "is_digit c = (let k = (of_char c :: nat) in 48 \<le> k \<and> k \<le> 57)"

definition digit_val :: "char \<Rightarrow> int" where
  "digit_val c = int (of_char c) - 48"

fun py_digits :: "int \<Rightarrow> string \<Rightarrow> int option" where
  "py_digits acc [] = None"
| "py_digits acc [c] = (if is_digit c then Some (10 * acc + digit_val c) else None)"
| "py_digits acc (c # d # cs) =
     (if is_digit c
      then (if d = CHR ''_'' then py_digits (10 * acc + digit_val c) cs
            else py_digits (10 * acc + digit_val c) (d # cs))
      else None)"

definition int_of_str :: "string \<Rightarrow> int option" where
  "int_of_str s =
     (case strip s of
        [] \<Rightarrow> None
      | c # cs \<Rightarrow>
          if c = CHR ''-'' then map_option uminus (py_digits 0 cs)
          else if c = CHR ''+'' then py_digits 0 cs
          else py_digits 0 (c # cs))"

text \<open>\<open>int(x)\<close> for a float truncates toward zero and raises on infinities and NaN.\<close>

definition trunc_rat :: "rat \<Rightarrow> int" where
  "trunc_rat r = (if 0 \<le> r then \<lfloor>r\<rfloor> else \<lceil>r\<rceil>)"

fun py_int :: "json \<Rightarrow> py_error + int" where
  "py_int JNull = Inl TypeError"
| "py_int (JBool b) = Inr (if b then 1 else 0)"
| "py_int (JInt i) = Inr i"
| "py_int (JFloat (Finite r)) = Inr (trunc_rat r)"
| "py_int (JFloat (Infinity s)) = Inl OverflowError"
| "py_int (JFloat NaN) = Inl ValueError"
| "py_int (JStr s) = (case int_of_str s of Some i \<Rightarrow> Inr i | None \<Rightarrow> Inl ValueError)"
| "py_int (JList vs) = Inl TypeError"
| "py_int (JObj d) = Inl TypeError"

text \<open>
  \<open>int(a / b)\<close> for integers \<open>a\<close>, \<open>b\<close> with \<open>b \<noteq> 0\<close>: the true quotient truncated
  toward zero. Python computes \<open>a / b\<close> in double precision; the generators below call it
  with \<open>0 \<le> a < 2^27\<close> and \<open>0 < b < 2^10\<close> (capacity 1024), where the rounded quotient
  and the exact one have the same integer part, so the exact quotient is used here.
\<close>

definition int_truediv :: "int \<Rightarrow> int \<Rightarrow> int" where
  "int_truediv a b = sgn a * sgn b * (\<bar>a\<bar> div \<bar>b\<bar>)"

text \<open>The slices \<open>xs[:k]\<close> and \<open>xs[-k:]\<close>, with Python's rule for negative bounds.\<close>

definition slice_to :: "'a list \<Rightarrow> int \<Rightarrow> 'a list" where
  "slice_to xs k = (if 0 \<le> k then take (nat k) xs else take (length xs - nat (- k)) xs)"

definition slice_last :: "'a list \<Rightarrow> int \<Rightarrow> 'a list" where
  "slice_last xs k = (if 0 < k then drop (length xs - nat k) xs else drop (nat (- k)) xs)"

text \<open>\<open>str(n)\<close> for a length, as used by the f-string of \<open>parse_dots_json\<close>.\<close>

definition digit_char :: "nat \<Rightarrow> char" where
  "digit_char d = ''0123456789'' ! d"

fun str_of_nat :: "nat \<Rightarrow> string" where
  "str_of_nat n =
     (if n < 10 then [digit_char n]
      else str_of_nat (n div 10) @ [digit_char (n mod 10)])"

declare str_of_nat.simps [simp del]

section \<open>Module globals\<close>

text \<open>
  The module binds \<open>DOT_CAP = 100\<close> at line 46 and rebinds \<open>DOT_CAP = 1024\<close> at line 364.
  The dot generators read the global when they are called; the default of the parameter
  \<open>dot_cap\<close> of \<open>image_line_to_dots\<close> is evaluated once, when the \<open>def\<close> statement at
  line 221 runs.
\<close>

record globals =
  DOT_CAP :: int

definition globals_line46 :: globals where
  "globals_line46 = \<lparr>DOT_CAP = 100\<rparr>"

definition image_line_to_dots_default_dot_cap :: int where
  "image_line_to_dots_default_dot_cap = DOT_CAP globals_line46"

definition globals_line364 :: globals where
  "globals_line364 = globals_line46\<lparr>DOT_CAP := 1024\<rparr>"

section \<open>Dots and the dot generators\<close>

record dot =
  idxNorm :: int
  rgbMask :: int

definition gen_single_dot :: "int \<Rightarrow> int \<Rightarrow> dot list" where
  "gen_single_dot idx_norm rgb_mask =
     (let idx = max 0 (min 65535 idx_norm);
          mask = rgb_mask AND 7
      in [\<lparr>idxNorm = idx, rgbMask = mask\<rparr>])"

definition gen_line :: "globals \<Rightarrow> int \<Rightarrow> int \<Rightarrow> dot list" where
  "gen_line g n rgb_mask =
     (let n = max 1 (min (DOT_CAP g) n);
          mask = rgb_mask AND 7
      in if n = 1 then [\<lparr>idxNorm = 32768, rgbMask = mask\<rparr>]
         else map (\<lambda>i. \<lparr>idxNorm = int_truediv (i * 65535) (n - 1), rgbMask = mask\<rparr>) [0..n - 1])"

text \<open>One of the three \<open>for i in range(n)\<close> loops of \<open>gen_color_bars\<close>.\<close>

definition color_bar :: "int \<Rightarrow> int \<Rightarrow> dot list" where
  "color_bar n rgb_mask =
     map (\<lambda>i. \<lparr>idxNorm = int_truediv (i * 65535) (max 1 (n - 1)), rgbMask = rgb_mask\<rparr>)
       [0..n - 1]"

definition gen_color_bars :: "globals \<Rightarrow> int \<Rightarrow> dot list" where
  "gen_color_bars g n_per_color =
     (let n = max 1 (min (DOT_CAP g div 3) n_per_color);
          out = color_bar n 1 @ color_bar n 2 @ color_bar n 4
      in slice_to (sort_key idxNorm out) (DOT_CAP g))"

text \<open>
  The loop of \<open>parse_dots_json\<close> over the entries of the list: an entry that is not a
  dictionary is skipped, \<open>int(...)\<close> may raise, and the loop stops once \<open>DOT_CAP\<close> dots
  have been collected.
\<close>

fun parse_dots_loop :: "globals \<Rightarrow> json list \<Rightarrow> dot list \<Rightarrow> py_error + dot list" where
  "parse_dots_loop g [] dots = Inr dots"
| "parse_dots_loop g (JObj v # vs) dots =
     (case py_int (dict_get v ''idxNorm'' (JInt 0)) of
        Inl e \<Rightarrow> Inl e
      | Inr idx \<Rightarrow>
          (case py_int (dict_get v ''rgbMask'' (JInt 0)) of
             Inl e \<Rightarrow> Inl e
           | Inr m \<Rightarrow>
               (let mask = m AND 7;
                    idx = max 0 (min 65535 idx);
                    dots = dots @ [\<lparr>idxNorm = idx, rgbMask = mask\<rparr>]
                in if DOT_CAP g \<le> int (length dots) then Inr dots
                   else parse_dots_loop g vs dots)))"
| "parse_dots_loop g (v # vs) dots = parse_dots_loop g vs dots"

text \<open>
  \<open>parse_dots_json\<close>. The parser \<open>json.loads\<close> is a parameter: it returns the parsed
  value or the text of its exception.
\<close>

definition parse_dots_json ::
  "(string \<Rightarrow> string + json) \<Rightarrow> globals \<Rightarrow> string \<Rightarrow> py_error + dot list \<times> string" where
  "parse_dots_json json_loads g text =
     (let text = strip text in
      if text = [] then Inr ([], ''empty'')
      else
        (case json_loads text of
           Inl e \<Rightarrow> Inr ([], ''JSON parse error: '' @ e)
         | Inr obj \<Rightarrow>
             (let obj = (case obj of
                           JObj d \<Rightarrow> (case map_of d ''dots'' of Some x \<Rightarrow> x | None \<Rightarrow> obj)
                         | _ \<Rightarrow> obj)
              in case obj of
                   JList vs \<Rightarrow>
                     (case parse_dots_loop g vs [] of
                        Inl e \<Rightarrow> Inl e
                      | Inr dots \<Rightarrow>
                          Inr (sort_key idxNorm dots,
                               ''ok ('' @ str_of_nat (length dots) @ '' dots)''))
                 | _ \<Rightarrow> Inr ([], ''expected a JSON list of dots or {dots:[...]}''))))"

section \<open>Serial client\<close>

text \<open>
  \<open>time.time()\<close> is read from a clock counted in milliseconds, so \<open>timeout_s = 1.0\<close> is
  \<open>1000\<close> and the polling interval \<open>0.05\<close> of \<open>send_json\<close> is \<open>50\<close>.
\<close>

record DeviceLine =
  t :: int
  raw :: string
  obj :: "json option"

text \<open>\<open>queue.Queue(maxsize=1000)\<close>: the oldest entry is the head of the list.\<close>

definition rxq_maxsize :: nat where
  "rxq_maxsize = 1000"

definition put_nowait :: "'a list \<Rightarrow> 'a \<Rightarrow> py_error + 'a list" where
  "put_nowait q x = (if rxq_maxsize \<le> length q then Inl Full else Inr (q @ [x]))"

definition get_nowait :: "'a list \<Rightarrow> py_error + 'a \<times> 'a list" where
  "get_nowait q = (case q of [] \<Rightarrow> Inl Empty | x # r \<Rightarrow> Inr (x, r))"

definition startswith :: "string \<Rightarrow> char \<Rightarrow> bool" where
  "startswith s c = (case s of [] \<Rightarrow> False | x # _ \<Rightarrow> x = c)"

definition endswith :: "string \<Rightarrow> char \<Rightarrow> bool" where
  "endswith s c = (case rev s of [] \<Rightarrow> False | x # _ \<Rightarrow> x = c)"

text \<open>
  Lines 131 to 138 of \<open>_reader_loop\<close>: the line read from the link becomes a
  \<open>DeviceLine\<close>. Decoding with replacement never fails and is not modelled: the line is
  taken as already decoded.
\<close>

definition device_line :: "(string \<Rightarrow> string + json) \<Rightarrow> int \<Rightarrow> string \<Rightarrow> DeviceLine" where
  "device_line json_loads now line =
     (let raw = strip line;
          obj = (if startswith raw CHR ''{'' \<and> endswith raw CHR ''}''
                 then (case json_loads raw of Inr j \<Rightarrow> Some j | Inl _ \<Rightarrow> None)
                 else None)
      in \<lparr>t = now, raw = raw, obj = obj\<rparr>)"

text \<open>Lines 139 to 150: publish, dropping the oldest entry when the queue is full.\<close>

definition publish :: "DeviceLine list \<Rightarrow> DeviceLine \<Rightarrow> DeviceLine list" where
  "publish q dl =
     (case put_nowait q dl of
        Inr q' \<Rightarrow> q'
      | Inl _ \<Rightarrow>
          (let q1 = (case get_nowait q of Inr (_, r) \<Rightarrow> r | Inl _ \<Rightarrow> q)
           in case put_nowait q1 dl of Inr q2 \<Rightarrow> q2 | Inl _ \<Rightarrow> q1))"

text \<open>
  \<open>_reader_loop\<close> over the results of the successive \<open>readline\<close> calls, each with the
  time at which it returned. The list ends where the stop event is set; a failing read
  leaves the loop, an empty read is retried.
\<close>

datatype readline = Line string | ReadFailure

fun reader_loop ::
  "(string \<Rightarrow> string + json) \<Rightarrow> (int \<times> readline) list \<Rightarrow> DeviceLine list \<Rightarrow> DeviceLine list" where
  "reader_loop json_loads [] q = q"
| "reader_loop json_loads ((now, ReadFailure) # reads) q = q"
| "reader_loop json_loads ((now, Line line) # reads) q =
     (if line = [] then reader_loop json_loads reads q
      else reader_loop json_loads reads (publish q (device_line json_loads now line)))"

text \<open>
  The client: the serial link (\<open>None\<close> when closed) with the payloads written to it, the
  receive queue, the clock, and the lines still to come from the reader thread, in
  their order, each stamped with the time \<open>t\<close> at which the reader publishes it.
  \<open>json.dumps\<close> is not modelled: the link records the payloads themselves. Writes are
  taken to succeed.
\<close>

record link =
  is_open :: bool
  tx :: "json list"

record client =
  ser :: "link option"
  rxq :: "DeviceLine list"
  now :: int
  incoming :: "DeviceLine list"

text \<open>
  The reader thread up to a given time: it publishes, in order, every line that has
  arrived by then.
\<close>

fun reader_publishes ::
  "int \<Rightarrow> DeviceLine list \<Rightarrow> DeviceLine list \<Rightarrow> DeviceLine list \<times> DeviceLine list" where
  "reader_publishes clock [] q = ([], q)"
| "reader_publishes clock (dl # rest) q =
     (if t dl \<le> clock then reader_publishes clock rest (publish q dl) else (dl # rest, q))"

definition reader_runs :: "client \<Rightarrow> client" where
  "reader_runs c =
     (case reader_publishes (now c) (incoming c) (rxq c) of
        (rest, q) \<Rightarrow> c\<lparr>incoming := rest, rxq := q\<rparr>)"

text \<open>
  \<open>self._rxq.get(timeout=...)\<close>: an entry that is in the queue is returned at once; on
  an empty queue the call blocks until the reader publishes the next line, if that
  happens within the timeout, and otherwise for the whole timeout, raising \<open>Empty\<close>.
\<close>

definition rxq_get :: "client \<Rightarrow> int \<Rightarrow> (py_error + DeviceLine) \<times> client" where
  "rxq_get c0 timeout =
     (let c = reader_runs c0 in
      case rxq c of
        x # r \<Rightarrow> (Inr x, c\<lparr>rxq := r\<rparr>)
      | [] \<Rightarrow>
          (case incoming c of
             [] \<Rightarrow> (Inl Empty, c\<lparr>now := now c + timeout\<rparr>)
           | dl # rest \<Rightarrow>
               if t dl \<le> now c + timeout
               then (Inr dl, c\<lparr>now := max (now c) (t dl), incoming := rest\<rparr>)
               else (Inl Empty, c\<lparr>now := now c + timeout\<rparr>)))"

text \<open>Lines 165 to 173 of \<open>send_json\<close>.\<close>

function wait_json_loop :: "int \<Rightarrow> client \<Rightarrow> DeviceLine \<times> client" where
  "wait_json_loop deadline c =
     (if now c < deadline then
        (case rxq_get c 50 of
           (Inl _, c') \<Rightarrow> wait_json_loop deadline c'
         | (Inr dl, c') \<Rightarrow>
             if obj dl \<noteq> None then (dl, c')
             else wait_json_loop deadline c')
      else (\<lparr>t = now c, raw = ''(timeout waiting for JSON)'',
             obj = Some (JObj [(''error'', JStr ''timeout'')])\<rparr>, c))"
  by pat_completeness auto
termination
proof (relation "measure (\<lambda>(deadline, c).
    length (rxq c) + length (incoming c) + nat (deadline - now c))")
  have pub: "length (publish q dl) \<le> Suc (length q)" for q dl
    by (cases q) (auto simp: publish_def put_nowait_def get_nowait_def)
  have rp: "length (fst (reader_publishes clock w q)) + length (snd (reader_publishes clock w q))
      \<le> length w + length q" for clock w q
  proof (induction w arbitrary: q)
    case Nil
    show ?case by simp
  next
    case (Cons dl w)
    from Cons [of "publish q dl"] pub [of q dl] show ?case by simp
  qed
  have rr: "length (rxq (reader_runs c)) + length (incoming (reader_runs c))
      \<le> length (rxq c) + length (incoming c) \<and> now (reader_runs c) = now c" for c
    using rp [of "now c" "incoming c" "rxq c"]
    by (auto simp: reader_runs_def split: prod.splits)
  show "wf (measure (\<lambda>(deadline, c).
      length (rxq c) + length (incoming c) + nat (deadline - now c)))"
    by simp
  show "((deadline, c'),  (deadline, c)) \<in> measure (\<lambda>(deadline, c).
      length (rxq c) + length (incoming c) + nat (deadline - now c))"
    if "now c < deadline" and "(x, c') = rxq_get c 50" and "x = Inl e"
    for deadline c x c' e
    using that rr [of c]
    by (auto simp: rxq_get_def Let_def split: list.splits if_splits)
  show "((deadline, c'),  (deadline, c)) \<in> measure (\<lambda>(deadline, c).
      length (rxq c) + length (incoming c) + nat (deadline - now c))"
    if "now c < deadline" and "(x, c') = rxq_get c 50" and "x = Inr dl" and "\<not> obj dl \<noteq> None"
    for deadline c x c' dl
    using that rr [of c]
    by (auto simp: rxq_get_def Let_def split: list.splits if_splits)
qed

declare wait_json_loop.simps [simp del]

definition send_json :: "client \<Rightarrow> json \<Rightarrow> bool \<Rightarrow> int \<Rightarrow> py_error + DeviceLine \<times> client" where
  "send_json c payload wait_json timeout_ms =
     (case ser c of
        None \<Rightarrow> Inl (RuntimeError ''Serial not open'')
      | Some l \<Rightarrow>
          if \<not> is_open l then Inl (RuntimeError ''Serial not open'')
          else
            (let c = c\<lparr>ser := Some (l\<lparr>tx := tx l @ [payload]\<rparr>)\<rparr>
             in if \<not> wait_json then Inr (\<lparr>t = now c, raw = ''(sent)'', obj = None\<rparr>, c)
                else Inr (wait_json_loop (now c + timeout_ms) c)))"

text \<open>
  \<open>get_recent_lines\<close>: the two loops, \<open>get_nowait\<close> until \<open>Empty\<close> and \<open>put_nowait\<close>
  until \<open>Full\<close>, then the slice \<open>items[-max_lines:]\<close>. It sees what the reader has
  published by the time of the call.
\<close>

fun drain :: "'a list \<Rightarrow> 'a list \<Rightarrow> 'a list \<times> 'a list" where
  "drain [] items = (items, [])"
| "drain (x # q) items = drain q (items @ [x])"

fun put_back :: "'a list \<Rightarrow> 'a list \<Rightarrow> 'a list" where
  "put_back q [] = q"
| "put_back q (it # its) =
     (case put_nowait q it of Inl _ \<Rightarrow> q | Inr q' \<Rightarrow> put_back q' its)"

definition get_recent_lines :: "client \<Rightarrow> int \<Rightarrow> DeviceLine list \<times> client" where
  "get_recent_lines c0 max_lines =
     (let c = reader_runs c0 in
      case drain (rxq c) [] of
        (items, q) \<Rightarrow> (slice_last items max_lines, c\<lparr>rxq := put_back q items\<rparr>))"

section \<open>Image line to dots\<close>

text \<open>
  An RGB \<open>uint8\<close> array of shape \<open>(H, W, 3)\<close> is a list of rows of pixels. Loading
  (PIL), bilinear resizing (PIL) and the tone mapping of lines 254 to 258 (\<open>float32\<close>
  arithmetic) are parameters.
\<close>

type_synonym pixel = "8 word \<times> 8 word \<times> 8 word"

type_synonym rgb_array = "pixel list list"

record imaging =
  img_to_rgb_array :: "string \<Rightarrow> py_error + rgb_array"
  resize_bilinear :: "rgb_array \<Rightarrow> int \<Rightarrow> rgb_array"
  tone_map :: "real \<Rightarrow> pixel list \<Rightarrow> pixel list"

definition width :: "rgb_array \<Rightarrow> nat" where
  "width rgb = (case rgb of [] \<Rightarrow> 0 | row # _ \<Rightarrow> length row)"

definition scale_image_for_dots :: "imaging \<Rightarrow> rgb_array \<Rightarrow> int \<Rightarrow> rgb_array" where
  "scale_image_for_dots lib rgb dot_cap =
     (if int (width rgb) = dot_cap then rgb else resize_bilinear lib rgb dot_cap)"

text \<open>
  The loop of lines 267 to 271. Its body computes the mask and, when the mask is zero,
  continues; when it is not zero the body ends as well: nothing is appended to \<open>dots\<close>.
\<close>

fun line_loop :: "int \<Rightarrow> pixel list \<Rightarrow> dot list \<Rightarrow> dot list" where
  "line_loop thr [] dots = dots"
| "line_loop thr ((r, gr, b) # line_u8) dots =
     (let mask = (if thr \<le> uint r then 1 else 0) OR (if thr \<le> uint gr then 2 else 0)
                 OR (if thr \<le> uint b then (4::int) else 0)
      in if mask = 0 then line_loop thr line_u8 dots
         else line_loop thr line_u8 dots)"

text \<open>What the function hands back: the documented pair, or a dictionary.\<close>

datatype ret = Tuple "dot list" "(string \<times> json) list" | Dict "(string \<times> json) list"

definition image_line_to_dots ::
  "imaging \<Rightarrow> string \<Rightarrow> int option \<Rightarrow> int \<Rightarrow> int \<Rightarrow> real \<Rightarrow> bool \<Rightarrow> py_error + ret" where
  "image_line_to_dots lib image_path line_index dot_cap threshold gamma serpentine =
     (case img_to_rgb_array lib image_path of
        Inl e \<Rightarrow> Inl e
      | Inr rgb \<Rightarrow>
          (let scaled = scale_image_for_dots lib rgb dot_cap;
               H = int (length scaled);
               line_index = (case line_index of None \<Rightarrow> H div 2 | Some i \<Rightarrow> i);
               line_index = max 0 (min (H - 1) line_index)
           in if H \<le> line_index then Inl IndexError
              else
                (let line_u8 = tone_map lib gamma (scaled ! nat line_index);
                     line_u8 = (if serpentine \<and> line_index mod 2 = 1 then rev line_u8
                                else line_u8);
                     thr = max 0 (min 255 threshold);
                     dots = line_loop thr line_u8 []
                 in Inr (Dict [(''status'', JStr ''autoscan_stopped'')]))))"

text \<open>A call that leaves every optional parameter at its default.\<close>

definition image_line_to_dots_defaults :: "imaging \<Rightarrow> string \<Rightarrow> py_error + ret" where
  "image_line_to_dots_defaults lib image_path =
     image_line_to_dots lib image_path None image_line_to_dots_default_dot_cap 32 1 False"

section \<open>Auto scan\<close>

text \<open>
  Modelled from the spec: \<open>start_auto_image_scan\<close> and \<open>stop_auto_image_scan\<close> are called
  by \<open>ui_start_autoscan\<close> and \<open>ui_stop_autoscan\<close> but are not defined in
  mirror\_controller.py. The session has the fields of the spec's ScanSession; a
  controller holds at most one session, which is Running while its running flag is set
  and Idle otherwise. Start rejects when a session is Running, and the end line defaults
  to the last scaled row of the image.
\<close>

record ScanSession =
  image_ref :: string
  current_line :: int
  start_line :: int
  end_line :: int
  interval_ms :: int
  loop_flag :: bool
  running :: bool

datatype scan_error = AlreadyRunning

definition is_running :: "ScanSession option \<Rightarrow> bool" where
  "is_running st = (case st of None \<Rightarrow> False | Some s \<Rightarrow> running s)"

definition start_auto_image_scan ::
  "ScanSession option \<Rightarrow> int \<Rightarrow> string \<Rightarrow> int \<Rightarrow> int option \<Rightarrow> int
     \<Rightarrow> int \<Rightarrow> real \<Rightarrow> bool \<Rightarrow> bool \<Rightarrow> bool
     \<Rightarrow> (scan_error + unit) \<times> ScanSession option" where
  "start_auto_image_scan st last_row image_path first_line last_line interval
       threshold gamma serpentine do_swap loop =
     (if is_running st then (Inl AlreadyRunning, st)
      else (Inr (),
            Some \<lparr>image_ref = image_path, current_line = first_line, start_line = first_line,
                  end_line = (case last_line of None \<Rightarrow> last_row | Some e \<Rightarrow> e),
                  interval_ms = interval, loop_flag = loop, running = True\<rparr>))"

definition stop_auto_image_scan :: "ScanSession option \<Rightarrow> ScanSession option" where
  "stop_auto_image_scan st = map_option (\<lambda>s. s\<lparr>running := False\<rparr>) st"

text \<open>
  \<open>ui_start_autoscan\<close> (lines 556 to 576): the end line field of the form is empty, NaN
  or a number; an \<open>int(...)\<close> that raises leaves it empty. The other fields are passed
  on as they are. The encoding parameters (threshold, gamma, serpentine, swap) are for
  the encoder at each tick and play no part in the decision to start.
\<close>

definition ui_end_line :: "pyfloat option \<Rightarrow> int option" where
  "ui_end_line field =
     (case field of
        None \<Rightarrow> None
      | Some NaN \<Rightarrow> None
      | Some x \<Rightarrow> (case py_int (JFloat x) of Inr e \<Rightarrow> Some e | Inl _ \<Rightarrow> None))"

definition ui_start_autoscan ::
  "ScanSession option \<Rightarrow> int \<Rightarrow> string \<Rightarrow> int \<Rightarrow> pyfloat option \<Rightarrow> int
     \<Rightarrow> int \<Rightarrow> real \<Rightarrow> bool \<Rightarrow> bool \<Rightarrow> bool
     \<Rightarrow> (scan_error + unit) \<times> ScanSession option" where
  "ui_start_autoscan st last_row image_path first_line last_line interval
       threshold gamma serpentine do_swap loop =
     start_auto_image_scan st last_row image_path first_line (ui_end_line last_line)
       interval threshold gamma serpentine do_swap loop"
section \<open>Properties of the dot generators\<close>

lemma int_truediv_nonneg: "0 \<le> a \<Longrightarrow> 0 < b \<Longrightarrow> int_truediv a b = a div b"
  by (cases "a = 0") (simp_all add: int_truediv_def)

lemma sorted_map_upto:
  assumes "\<And>i j. lo \<le> i \<Longrightarrow> i \<le> j \<Longrightarrow> f i \<le> f j"
  shows "sorted (map f [lo..hi])"
proof -
  have "mono_on (set [lo..hi]) f"
    using assms by (auto simp: mono_on_def)
  then show ?thesis
    by (rule sorted_map_mono [OF sorted_upto])
qed

lemma truediv_mono:
  "0 < b \<Longrightarrow> 0 \<le> i \<Longrightarrow> i \<le> j \<Longrightarrow> int_truediv (i * 65535) b \<le> int_truediv (j * 65535) b"
  by (simp add: int_truediv_nonneg zdiv_mono1)

lemma idxNorm_color_bar:
  "map idxNorm (color_bar n m) = map (\<lambda>i. int_truediv (i * 65535) (max 1 (n - 1))) [0..n - 1]"
  by (simp add: color_bar_def comp_def)

lemma sorted_color_bar: "sorted (map idxNorm (color_bar n m))"
  unfolding idxNorm_color_bar by (rule sorted_map_upto) (simp add: truediv_mono)

lemma length_color_bar: "length (color_bar n m) = nat n"
  by (simp add: color_bar_def)

lemma filter_color_bar:
  "filter (\<lambda>d. rgbMask d = k) (color_bar n m) = (if m = k then color_bar n m else [])"
  by (auto simp: color_bar_def filter_empty_conv)

lemma sorted_gen_line: "sorted (map idxNorm (gen_line g n m))"
proof -
  have "sorted (map (\<lambda>i. int_truediv (i * 65535) (k - 1)) [0..k - 1])" if "1 < k" for k :: int
    by (rule sorted_map_upto) (use that in \<open>simp add: truediv_mono\<close>)
  then show ?thesis
    by (auto simp: gen_line_def Let_def comp_def)
qed

lemma length_gen_line: "length (gen_line g n m) = nat (max 1 (min (DOT_CAP g) n))"
  by (simp add: gen_line_def Let_def)

lemma take_bit_3_int: "take_bit 3 (m::int) = m AND 7"
  by (simp add: take_bit_eq_mask mask_eq_exp_minus_1)

lemma mask7_range: "0 \<le> (m::int) AND 7 \<and> m AND 7 \<le> 7"
  by (simp add: AND_upper2)

lemma clamp_cases:
  "max 0 (min 65535 (i::int)) = (if i < 0 then 0 else if 65535 < i then 65535 else i)"
  by simp

lemma parse_dots_loop_length:
  "parse_dots_loop g vs dots = Inr r \<Longrightarrow> int (length dots) < DOT_CAP g \<Longrightarrow> int (length r) \<le> DOT_CAP g"
proof (induction g vs dots rule: parse_dots_loop.induct)
  case (1 g dots)
  then show ?case by simp
next
  case (2 g v vs dots)
  then show ?case
    by (auto simp: Let_def split: sum.splits if_splits)
qed simp_all

lemma parse_dots_loop_set:
  "parse_dots_loop g vs dots = Inr r \<Longrightarrow> d \<in> set r \<Longrightarrow>
     d \<in> set dots \<or> (\<exists>kv i m. JObj kv \<in> set vs
        \<and> py_int (dict_get kv ''idxNorm'' (JInt 0)) = Inr i
        \<and> py_int (dict_get kv ''rgbMask'' (JInt 0)) = Inr m
        \<and> d = \<lparr>idxNorm = max 0 (min 65535 i), rgbMask = m AND 7\<rparr>)"
proof (induction g vs dots rule: parse_dots_loop.induct)
  case (1 g dots)
  then show ?case by simp
next
  case (2 g v vs dots)
  then show ?case
    by (fastforce simp: Let_def split: sum.splits if_splits)
qed auto

lemma set_parse_dots_json:
  assumes "json_loads (strip txt) = Inr v"
    and "v = JList vs \<or> (\<exists>kv. v = JObj kv \<and> map_of kv ''dots'' = Some (JList vs))"
    and "parse_dots_json json_loads g txt = Inr (dots, msg)"
  shows "dots = [] \<or> (\<exists>ds. parse_dots_loop g vs [] = Inr ds \<and> dots = sort_key idxNorm ds)"
  using assms
  by (auto simp: parse_dots_json_def Let_def split: if_splits sum.splits)

lemma parse_dots_json_cases:
  assumes "parse_dots_json json_loads g txt = Inr (dots, msg)"
  shows "dots = [] \<or> (\<exists>vs ds. parse_dots_loop g vs [] = Inr ds \<and> dots = sort_key idxNorm ds)"
  using assms
  by (auto simp: parse_dots_json_def Let_def split: if_splits sum.splits json.splits option.splits)


lemma line_loop_keeps: "line_loop thr line_u8 dots = dots"
  by (induction line_u8) (auto simp: Let_def)

lemma sorted_slice_to: "sorted (map f xs) \<Longrightarrow> sorted (map f (slice_to xs k))"
  by (simp add: slice_to_def take_map [symmetric] sorted_wrt_take)

lemma length_slice_to: "0 \<le> k \<Longrightarrow> int (length (slice_to xs k)) \<le> k"
  by (simp add: slice_to_def)

lemma slice_to_all: "int (length xs) \<le> k \<Longrightarrow> slice_to xs k = xs"
  by (simp add: slice_to_def)

lemma sorted_gen_color_bars: "sorted (map idxNorm (gen_color_bars g n))"
  by (simp add: gen_color_bars_def Let_def sorted_slice_to sorted_sort_key)

lemma gen_color_bars_all:
  assumes "3 \<le> DOT_CAP g"
  shows "gen_color_bars g n =
     sort_key idxNorm
       (color_bar (max 1 (min (DOT_CAP g div 3) n)) 1
        @ color_bar (max 1 (min (DOT_CAP g div 3) n)) 2
        @ color_bar (max 1 (min (DOT_CAP g div 3) n)) 4)"
proof -
  let ?n = "max 1 (min (DOT_CAP g div 3) n)"
  have "1 \<le> DOT_CAP g div 3" using assms by presburger
  then have "3 * ?n \<le> DOT_CAP g" by auto
  moreover have "int (length (sort_key idxNorm (color_bar ?n 1 @ color_bar ?n 2 @ color_bar ?n 4)))
      = 3 * ?n"
    by (simp add: length_color_bar)
  ultimately have "int (length (sort_key idxNorm (color_bar ?n 1 @ color_bar ?n 2 @ color_bar ?n 4)))
      \<le> DOT_CAP g"
    by linarith
  then show ?thesis
    by (simp only: gen_color_bars_def Let_def slice_to_all)
qed

lemma sorted_parse_dots_json:
  "parse_dots_json json_loads g txt = Inr (dots, msg) \<Longrightarrow> sorted (map idxNorm dots)"
  by (drule parse_dots_json_cases) (auto simp: sorted_sort_key)

lemma length_parse_dots_json:
  assumes "1 \<le> DOT_CAP g" and "parse_dots_json json_loads g txt = Inr (dots, msg)"
  shows "int (length dots) \<le> DOT_CAP g"
proof -
  from parse_dots_json_cases [OF assms(2)] show ?thesis
  proof
    assume "dots = []"
    with assms(1) show ?thesis by simp
  next
    assume "\<exists>vs ds. parse_dots_loop g vs [] = Inr ds \<and> dots = sort_key idxNorm ds"
    then obtain vs ds where ds: "parse_dots_loop g vs [] = Inr ds"
      and dots: "dots = sort_key idxNorm ds" by blast
    from assms(1) have "int (length ([] :: dot list)) < DOT_CAP g" by simp
    from parse_dots_loop_length [OF ds this] dots show ?thesis by simp
  qed
qed

section \<open>Properties of the serial client\<close>

lemma publish_below: "length q < 1000 \<Longrightarrow> publish q dl = q @ [dl]"
  by (simp add: publish_def put_nowait_def rxq_maxsize_def)

lemma publish_full: "length q = 1000 \<Longrightarrow> publish q dl = tl q @ [dl]"
  by (cases q) (simp_all add: publish_def put_nowait_def get_nowait_def rxq_maxsize_def)

lemma fold_publish:
  "length q \<le> 1000 \<Longrightarrow>
     fold (\<lambda>dl q. publish q dl) dls q = drop (length q + length dls - 1000) (q @ dls)"
proof (induction dls arbitrary: q)
  case Nil
  then show ?case by simp
next
  case (Cons dl dls)
  show ?case
  proof (cases "length q < 1000")
    case True
    then have "publish q dl = q @ [dl]" by (rule publish_below)
    with True Cons.IH [of "q @ [dl]"] show ?thesis by simp
  next
    case False
    with Cons.prems have len: "length q = 1000" by simp
    then obtain x r where q: "q = x # r" by (cases q) auto
    from len have "publish q dl = tl q @ [dl]" by (rule publish_full)
    with len q Cons.IH [of "r @ [dl]"] show ?thesis by simp
  qed
qed

lemma reader_loop_lines:
  "\<forall>e \<in> set lines. snd e \<noteq> [] \<Longrightarrow>
     reader_loop L (map (\<lambda>e. (fst e, Line (snd e))) lines) q =
     fold (\<lambda>dl q. publish q dl) (map (\<lambda>e. device_line L (fst e) (snd e)) lines) q"
  by (induction lines arbitrary: q) auto

lemma drain_all: "drain q items = (items @ q, [])"
  by (induction q arbitrary: items) auto

lemma put_back_fits: "length q + length items \<le> 1000 \<Longrightarrow> put_back q items = q @ items"
  by (induction items arbitrary: q) (auto simp: put_nowait_def rxq_maxsize_def)

lemma set_publish: "set (publish q dl) \<subseteq> insert dl (set q)"
  by (cases q) (auto simp: publish_def put_nowait_def get_nowait_def)

lemma length_publish: "length q \<le> 1000 \<Longrightarrow> length (publish q dl) \<le> 1000"
  by (cases "length q < 1000") (simp_all add: publish_below publish_full)

lemma reader_publishes_sets:
  "reader_publishes clock w q = (w', q') \<Longrightarrow>
     set w' \<subseteq> set w \<and> set q' \<subseteq> set q \<union> {dl \<in> set w. t dl \<le> clock}"
proof (induction w arbitrary: q)
  case Nil
  then show ?case by simp
next
  case (Cons dl w)
  show ?case
  proof (cases "t dl \<le> clock")
    case True
    with Cons.prems have "reader_publishes clock w (publish q dl) = (w', q')" by simp
    from Cons.IH [OF this] set_publish [of q dl] True show ?thesis by auto
  next
    case False
    with Cons.prems show ?thesis by auto
  qed
qed

lemma reader_publishes_length:
  "length q \<le> 1000 \<Longrightarrow> length (snd (reader_publishes clock w q)) \<le> 1000"
  by (induction w arbitrary: q) (simp_all add: length_publish)

lemma reader_runs_quiet: "incoming c = [] \<Longrightarrow> reader_runs c = c"
  by (simp add: reader_runs_def)

lemma reader_runs_fields: "ser (reader_runs c) = ser c" "now (reader_runs c) = now c"
  by (simp_all add: reader_runs_def split: prod.splits)

lemma reader_runs_no_json:
  assumes "\<forall>dl \<in> set (rxq c). obj dl = None"
    and "\<forall>dl \<in> set (incoming c). obj dl = None \<or> bound \<le> t dl"
    and "now c < bound"
  shows "(\<forall>dl \<in> set (rxq (reader_runs c)). obj dl = None)
       \<and> (\<forall>dl \<in> set (incoming (reader_runs c)). obj dl = None \<or> bound \<le> t dl)"
proof -
  obtain w' q' where r: "reader_publishes (now c) (incoming c) (rxq c) = (w', q')"
    by (cases "reader_publishes (now c) (incoming c) (rxq c)")
  from reader_publishes_sets [OF r] have
    w: "set w' \<subseteq> set (incoming c)"
    and q: "set q' \<subseteq> set (rxq c) \<union> {dl \<in> set (incoming c). t dl \<le> now c}"
    by simp_all
  have "obj dl = None" if "dl \<in> set q'" for dl
  proof -
    from q that consider "dl \<in> set (rxq c)" | "dl \<in> set (incoming c)" "t dl \<le> now c"
      by auto
    then show ?thesis
    proof cases
      case 1
      with assms(1) show ?thesis by simp
    next
      case 2
      with assms(2,3) show ?thesis by force
    qed
  qed
  moreover have "obj dl = None \<or> bound \<le> t dl" if "dl \<in> set w'" for dl
    using that w assms(2) by auto
  ultimately show ?thesis
    by (simp add: reader_runs_def r)
qed

lemma get_recent_lines_snapshot:
  "length (rxq c) \<le> 1000 \<Longrightarrow>
     get_recent_lines c k = (slice_last (rxq (reader_runs c)) k, reader_runs c)"
proof -
  assume "length (rxq c) \<le> 1000"
  then have "length (rxq (reader_runs c)) \<le> 1000"
    using reader_publishes_length [of "rxq c" "now c" "incoming c"]
    by (auto simp: reader_runs_def split: prod.splits)
  then show ?thesis
    by (simp add: get_recent_lines_def Let_def drain_all put_back_fits)
qed

text \<open>One call of \<open>rxq_get\<close> while no JSON line is due before \<open>bound\<close>.\<close>

lemma rxq_get_no_json:
  assumes "\<forall>dl \<in> set (rxq c). obj dl = None"
    and "\<forall>dl \<in> set (incoming c). obj dl = None \<or> bound \<le> t dl"
    and "now c + 50 < bound"
    and "rxq_get c 50 = (x, c')"
  shows "(\<forall>dl \<in> set (rxq c'). obj dl = None)
       \<and> (\<forall>dl \<in> set (incoming c'). obj dl = None \<or> bound \<le> t dl)
       \<and> ser c' = ser c \<and> now c \<le> now c' \<and> now c' \<le> now c + 50
       \<and> (case x of Inl e \<Rightarrow> True | Inr dl \<Rightarrow> obj dl = None)"
proof -
  let ?c1 = "reader_runs c"
  from assms(3) have "now c < bound" by simp
  from reader_runs_no_json [OF assms(1,2) this] have
    q1: "\<forall>dl \<in> set (rxq ?c1). obj dl = None"
    and w1: "\<forall>dl \<in> set (incoming ?c1). obj dl = None \<or> bound \<le> t dl"
    by simp_all
  show ?thesis
  proof (cases "rxq ?c1")
    case (Cons y r)
    with assms(4) have "x = Inr y" "c' = ?c1\<lparr>rxq := r\<rparr>"
      by (simp_all add: rxq_get_def Let_def)
    with q1 w1 Cons show ?thesis
      by (simp add: reader_runs_fields)
  next
    case Nil
    show ?thesis
    proof (cases "incoming ?c1")
      case inc: Nil
      with Nil assms(4) have "x = Inl Empty" "c' = ?c1\<lparr>now := now ?c1 + 50\<rparr>"
        by (simp_all add: rxq_get_def Let_def)
      with q1 w1 show ?thesis
        by (simp add: reader_runs_fields)
    next
      case inc: (Cons dl rest)
      show ?thesis
      proof (cases "t dl \<le> now ?c1 + 50")
        case True
        with Nil inc assms(4) have xc: "x = Inr dl"
          "c' = ?c1\<lparr>now := max (now ?c1) (t dl), incoming := rest\<rparr>"
          by (simp_all add: rxq_get_def Let_def)
        from True assms(3) have "\<not> bound \<le> t dl"
          by (simp add: reader_runs_fields)
        with w1 inc have "obj dl = None" by auto
        with xc q1 w1 inc True show ?thesis
          by (auto simp: reader_runs_fields)
      next
        case False
        with Nil inc assms(4) have "x = Inl Empty" "c' = ?c1\<lparr>now := now ?c1 + 50\<rparr>"
          by (simp_all add: rxq_get_def Let_def)
        with q1 w1 show ?thesis
          by (simp add: reader_runs_fields)
      qed
    qed
  qed
qed

lemma wait_json_loop_timeout:
  assumes "\<forall>dl \<in> set (rxq c). obj dl = None"
    and "\<forall>dl \<in> set (incoming c). obj dl = None \<or> d + 50 \<le> t dl"
  shows "\<exists>c'. wait_json_loop d c =
            (\<lparr>t = now c', raw = ''(timeout waiting for JSON)'',
              obj = Some (JObj [(''error'', JStr ''timeout'')])\<rparr>, c')
          \<and> ser c' = ser c \<and> d \<le> now c' \<and> now c' < max (now c + 1) (d + 50)"
  using assms
proof (induction d c rule: wait_json_loop.induct)
  case (1 deadline c)
  show ?case
  proof (cases "now c < deadline")
    case False
    then show ?thesis by (simp add: wait_json_loop.simps [of deadline c])
  next
    case True
    obtain x c1 where g: "rxq_get c 50 = (x, c1)"
      by (cases "rxq_get c 50")
    from True have "now c + 50 < deadline + 50" by simp
    from rxq_get_no_json [OF "1.prems" this g] have
      q1: "\<forall>dl \<in> set (rxq c1). obj dl = None"
      and w1: "\<forall>dl \<in> set (incoming c1). obj dl = None \<or> deadline + 50 \<le> t dl"
      and s1: "ser c1 = ser c" and t1: "now c \<le> now c1" "now c1 \<le> now c + 50"
      and x: "case x of Inl e \<Rightarrow> True | Inr dl \<Rightarrow> obj dl = None"
      by simp_all
    have "\<exists>c'. wait_json_loop deadline c1 =
            (\<lparr>t = now c', raw = ''(timeout waiting for JSON)'',
              obj = Some (JObj [(''error'', JStr ''timeout'')])\<rparr>, c')
          \<and> ser c' = ser c1 \<and> deadline \<le> now c' \<and> now c' < max (now c1 + 1) (deadline + 50)"
    proof (cases x)
      case (Inl e)
      from "1.IH"(1) [OF True g [symmetric] Inl q1 w1] show ?thesis .
    next
      case (Inr dl)
      with x have n: "\<not> obj dl \<noteq> None" by simp
      from "1.IH"(2) [OF True g [symmetric] Inr n q1 w1] show ?thesis .
    qed
    then obtain c' where
      w: "wait_json_loop deadline c1 =
            (\<lparr>t = now c', raw = ''(timeout waiting for JSON)'',
              obj = Some (JObj [(''error'', JStr ''timeout'')])\<rparr>, c')"
      and r: "ser c' = ser c1" "deadline \<le> now c'" "now c' < max (now c1 + 1) (deadline + 50)"
      by blast
    have "wait_json_loop deadline c = wait_json_loop deadline c1"
      using True g x by (simp add: wait_json_loop.simps [of deadline c] split: sum.splits)
    with w r s1 t1 True show ?thesis
      by (intro exI [of _ c']) auto
  qed
qed

section \<open>Evaluation at concrete inputs\<close>

lemma not_space_brackets: "\<not> is_space CHR ''[''" "\<not> is_space CHR '']''"
  by (simp_all add: is_space_def)

lemma strip_bracket: "strip ''[1]'' = ''[1]''"
  by (simp add: strip_def not_space_brackets)

lemma str_of_nat_1: "str_of_nat (Suc 0) = ''1''"
  by (subst str_of_nat.simps) (simp add: digit_char_def)

lemma parse_example:
  "parse_dots_json (\<lambda>s. Inr (JList [JObj [(''idxNorm'', JInt 70000), (''rgbMask'', JInt 9)]]))
       globals_line364 ''[1]''
     = Inr ([\<lparr>idxNorm = 65535, rgbMask = 1\<rparr>], ''ok (1 dots)'')"
  by (simp add: parse_dots_json_def strip_bracket dict_get_def str_of_nat_1
      globals_line364_def globals_line46_def)

lemma cap_line364: "DOT_CAP globals_line364 = 1024"
  by (simp add: globals_line364_def globals_line46_def)

lemma gen_line_example:
  "gen_line globals_line364 3 7 =
     [\<lparr>idxNorm = 0, rgbMask = 7\<rparr>, \<lparr>idxNorm = 32767, rgbMask = 7\<rparr>,
      \<lparr>idxNorm = 65535, rgbMask = 7\<rparr>]"
  by code_simp

lemma gen_color_bars_example:
  "gen_color_bars globals_line364 2 =
     [\<lparr>idxNorm = 0, rgbMask = 1\<rparr>, \<lparr>idxNorm = 0, rgbMask = 2\<rparr>,
      \<lparr>idxNorm = 0, rgbMask = 4\<rparr>, \<lparr>idxNorm = 65535, rgbMask = 1\<rparr>,
      \<lparr>idxNorm = 65535, rgbMask = 2\<rparr>, \<lparr>idxNorm = 65535, rgbMask = 4\<rparr>]"
  by code_simp

lemma image_line_to_dots_result:
  "image_line_to_dots lib path line_index dot_cap threshold gam serpentine
     \<noteq> Inr (Tuple dots meta)"
  by (simp add: image_line_to_dots_def Let_def split: sum.splits)

lemma not_space_brackets2: "\<not> is_space CHR ''b''" "\<not> is_space CHR ''d''"
  by (simp_all add: is_space_def)

lemma strip_bad: "strip ''bad'' = ''bad''"
  by (simp add: strip_def not_space_brackets2)

lemma slice_last_all: "int (length xs) = k \<Longrightarrow> slice_last xs k = xs"
  by (cases "0 < k") (auto simp: slice_last_def)

lemma reader_loop_overflow:
  assumes "length lines = 1001" and "[] \<notin> snd ` set lines"
  shows "reader_loop json_loads (map (\<lambda>e. (fst e, Line (snd e))) lines) []
           = map (\<lambda>e. device_line json_loads (fst e) (snd e)) (tl lines)"
proof -
  from assms(2) have "\<forall>e \<in> set lines. snd e \<noteq> []" by force
  then have "reader_loop json_loads (map (\<lambda>e. (fst e, Line (snd e))) lines) []
      = fold (\<lambda>dl q. publish q dl) (map (\<lambda>e. device_line json_loads (fst e) (snd e)) lines) []"
    by (rule reader_loop_lines)
  also have "\<dots> = drop 1 (map (\<lambda>e. device_line json_loads (fst e) (snd e)) lines)"
    using assms(1) by (simp add: fold_publish)
  also have "\<dots> = map (\<lambda>e. device_line json_loads (fst e) (snd e)) (tl lines)"
    by (simp add: drop_Suc map_tl)
  finally show ?thesis .
qed

section \<open>Claims\<close>

text \<open>
  C8. Whatever \<open>gen_single_dot\<close> is given, the dot it stores has its \<open>idxNorm\<close> clamped
  into \<open>[0, 65535]\<close> and keeps only the low three bits of \<open>rgbMask\<close>. The same holds
  for every dot that \<open>parse_dots_json\<close> returns: it comes from a dictionary entry of the
  parsed list whose two fields convert with \<open>int(...)\<close>, with the position clamped and
  the mask cut to three bits.
\<close>

theorem stored_dot_clamped_and_masked:
  "gen_single_dot i m =
     [\<lparr>idxNorm = (if i < 0 then 0 else if 65535 < i then 65535 else i),
       rgbMask = take_bit 3 m\<rparr>]
   \<and> (json_loads (strip txt) = Inr v \<longrightarrow>
       (v = JList vs \<or> (\<exists>kv. v = JObj kv \<and> map_of kv ''dots'' = Some (JList vs))) \<longrightarrow>
       parse_dots_json json_loads g txt = Inr (dots, msg) \<longrightarrow>
       (\<forall>d \<in> set dots. \<exists>kv j k.
           JObj kv \<in> set vs
           \<and> py_int (dict_get kv ''idxNorm'' (JInt 0)) = Inr j
           \<and> py_int (dict_get kv ''rgbMask'' (JInt 0)) = Inr k
           \<and> d = \<lparr>idxNorm = (if j < 0 then 0 else if 65535 < j then 65535 else j),
                  rgbMask = take_bit 3 k\<rparr>))"
proof (intro conjI impI ballI)
  show "gen_single_dot i m =
     [\<lparr>idxNorm = (if i < 0 then 0 else if 65535 < i then 65535 else i),
       rgbMask = take_bit 3 m\<rparr>]"
    by (simp add: gen_single_dot_def take_bit_3_int)
next
  fix d
  assume l: "json_loads (strip txt) = Inr v"
    and v: "v = JList vs \<or> (\<exists>kv. v = JObj kv \<and> map_of kv ''dots'' = Some (JList vs))"
    and p: "parse_dots_json json_loads g txt = Inr (dots, msg)"
    and d: "d \<in> set dots"
  from set_parse_dots_json [OF l v p] d obtain ds where
    ds: "parse_dots_loop g vs [] = Inr ds" and "dots = sort_key idxNorm ds"
    by auto
  with d have "d \<in> set ds" by simp
  from parse_dots_loop_set [OF ds this] obtain kv j k where
    "JObj kv \<in> set vs" "py_int (dict_get kv ''idxNorm'' (JInt 0)) = Inr j"
    "py_int (dict_get kv ''rgbMask'' (JInt 0)) = Inr k"
    "d = \<lparr>idxNorm = max 0 (min 65535 j), rgbMask = k AND 7\<rparr>"
    by auto
  then show "\<exists>kv j k.
           JObj kv \<in> set vs
           \<and> py_int (dict_get kv ''idxNorm'' (JInt 0)) = Inr j
           \<and> py_int (dict_get kv ''rgbMask'' (JInt 0)) = Inr k
           \<and> d = \<lparr>idxNorm = (if j < 0 then 0 else if 65535 < j then 65535 else j),
                  rgbMask = take_bit 3 k\<rparr>"
    unfolding take_bit_3_int clamp_cases [symmetric] by blast
qed

theorem stored_dot_clamped_and_masked_witness:
  "gen_single_dot 70000 9 = [\<lparr>idxNorm = 65535, rgbMask = 1\<rparr>]
   \<and> parse_dots_json
         (\<lambda>s. Inr (JList [JObj [(''idxNorm'', JInt 70000), (''rgbMask'', JInt 9)]]))
         globals_line364 ''[1]''
       = Inr ([\<lparr>idxNorm = 65535, rgbMask = 1\<rparr>], ''ok (1 dots)'')
   \<and> (\<exists>kv j k.
           JObj kv \<in> set [JObj [(''idxNorm'', JInt 70000), (''rgbMask'', JInt 9)]]
           \<and> py_int (dict_get kv ''idxNorm'' (JInt 0)) = Inr j
           \<and> py_int (dict_get kv ''rgbMask'' (JInt 0)) = Inr k
           \<and> \<lparr>idxNorm = 65535, rgbMask = 1\<rparr>
               = \<lparr>idxNorm = (if j < 0 then 0 else if 65535 < j then 65535 else j),
                  rgbMask = take_bit 3 k\<rparr>)"
proof -
  let ?L = "\<lambda>s::string. (Inr (JList [JObj [(''idxNorm'', JInt 70000), (''rgbMask'', JInt 9)]])
               :: string + json)"
  note inst = stored_dot_clamped_and_masked [of 70000 9 ?L "''[1]''"
      "JList [JObj [(''idxNorm'', JInt 70000), (''rgbMask'', JInt 9)]]"
      "[JObj [(''idxNorm'', JInt 70000), (''rgbMask'', JInt 9)]]"
      globals_line364 "[\<lparr>idxNorm = 65535, rgbMask = 1\<rparr>]" "''ok (1 dots)''"]
  have single: "gen_single_dot 70000 9 = [\<lparr>idxNorm = 65535, rgbMask = 1\<rparr>]"
    using inst by simp
  have "\<forall>d \<in> set [\<lparr>idxNorm = 65535, rgbMask = 1\<rparr>]. \<exists>kv j k.
           JObj kv \<in> set [JObj [(''idxNorm'', JInt 70000), (''rgbMask'', JInt 9)]]
           \<and> py_int (dict_get kv ''idxNorm'' (JInt 0)) = Inr j
           \<and> py_int (dict_get kv ''rgbMask'' (JInt 0)) = Inr k
           \<and> d = \<lparr>idxNorm = (if j < 0 then 0 else if 65535 < j then 65535 else j),
                  rgbMask = take_bit 3 k\<rparr>"
    using inst parse_example by blast
  then have "\<exists>kv j k.
           JObj kv \<in> set [JObj [(''idxNorm'', JInt 70000), (''rgbMask'', JInt 9)]]
           \<and> py_int (dict_get kv ''idxNorm'' (JInt 0)) = Inr j
           \<and> py_int (dict_get kv ''rgbMask'' (JInt 0)) = Inr k
           \<and> \<lparr>idxNorm = 65535, rgbMask = 1\<rparr>
               = \<lparr>idxNorm = (if j < 0 then 0 else if 65535 < j then 65535 else j),
                  rgbMask = take_bit 3 k\<rparr>"
    by (rule bspec) simp
  with single parse_example show ?thesis by blast
qed

text \<open>
  C3. With a capacity of at least one (the module runs with 1024), the dot lists that
  \<open>gen_line\<close>, \<open>gen_color_bars\<close> and \<open>parse_dots_json\<close> return are sorted ascending by
  \<open>idxNorm\<close> and no longer than \<open>DOT_CAP\<close>. \<open>image_line_to_dots\<close> returns no dot list;
  the list \<open>dots\<close> that its loop carries stays empty, so it is sorted and within the
  capacity as well.
\<close>

theorem dot_lists_sorted_and_capped:
  assumes "1 \<le> DOT_CAP g"
  shows "sorted (map idxNorm (gen_line g n m))
       \<and> int (length (gen_line g n m)) \<le> DOT_CAP g
       \<and> sorted (map idxNorm (gen_color_bars g k))
       \<and> int (length (gen_color_bars g k)) \<le> DOT_CAP g
       \<and> (parse_dots_json json_loads g txt = Inr (dots, msg) \<longrightarrow>
            sorted (map idxNorm dots) \<and> int (length dots) \<le> DOT_CAP g)
       \<and> sorted (map idxNorm (line_loop thr line_u8 []))
       \<and> int (length (line_loop thr line_u8 [])) \<le> DOT_CAP g"
proof -
  have "int (length (gen_line g n m)) \<le> DOT_CAP g"
    using assms by (simp add: length_gen_line)
  moreover have "int (length (gen_color_bars g k)) \<le> DOT_CAP g"
    using assms by (simp add: gen_color_bars_def Let_def length_slice_to)
  moreover have "sorted (map idxNorm dots) \<and> int (length dots) \<le> DOT_CAP g"
    if "parse_dots_json json_loads g txt = Inr (dots, msg)"
    using that assms sorted_parse_dots_json length_parse_dots_json by blast
  moreover have "int (length (line_loop thr line_u8 [])) \<le> DOT_CAP g"
    using assms by (simp add: line_loop_keeps)
  moreover have "sorted (map idxNorm (line_loop thr line_u8 []))"
    by (simp add: line_loop_keeps)
  ultimately show ?thesis
    using sorted_gen_line [of g n m] sorted_gen_color_bars [of g k] by blast
qed


theorem dot_lists_sorted_and_capped_witness:
  "1 \<le> DOT_CAP globals_line364
   \<and> gen_line globals_line364 3 7 =
       [\<lparr>idxNorm = 0, rgbMask = 7\<rparr>, \<lparr>idxNorm = 32767, rgbMask = 7\<rparr>,
        \<lparr>idxNorm = 65535, rgbMask = 7\<rparr>]
   \<and> sorted (map idxNorm (gen_line globals_line364 3 7))
   \<and> int (length (gen_line globals_line364 3 7)) \<le> DOT_CAP globals_line364
   \<and> sorted (map idxNorm (gen_color_bars globals_line364 2))
   \<and> int (length (gen_color_bars globals_line364 2)) \<le> DOT_CAP globals_line364
   \<and> parse_dots_json
         (\<lambda>s. Inr (JList [JObj [(''idxNorm'', JInt 70000), (''rgbMask'', JInt 9)]]))
         globals_line364 ''[1]''
       = Inr ([\<lparr>idxNorm = 65535, rgbMask = 1\<rparr>], ''ok (1 dots)'')
   \<and> sorted (map idxNorm [\<lparr>idxNorm = 65535, rgbMask = 1\<rparr>])
   \<and> int (length [\<lparr>idxNorm = 65535, rgbMask = 1\<rparr>]) \<le> DOT_CAP globals_line364
   \<and> sorted (map idxNorm (line_loop 0 [(255, 255, 255)] []))
   \<and> int (length (line_loop 0 [(255, 255, 255)] [])) \<le> DOT_CAP globals_line364"
proof -
  have cap: "1 \<le> DOT_CAP globals_line364"
    by (simp add: cap_line364)
  note inst = dot_lists_sorted_and_capped [OF cap, of 3 7 2
      "\<lambda>s. Inr (JList [JObj [(''idxNorm'', JInt 70000), (''rgbMask'', JInt 9)]])" "''[1]''"
      "[\<lparr>idxNorm = 65535, rgbMask = 1\<rparr>]" "''ok (1 dots)''" 0 "[(255, 255, 255)]"]
  from cap inst parse_example gen_line_example show ?thesis
    by blast
qed


text \<open>
  C7. With a capacity of at least three, \<open>gen_color_bars n\<close> yields \<open>3 * n'\<close> dots, where
  \<open>n'\<close> is \<open>n\<close> clamped to \<open>[1, DOT_CAP div 3]\<close>; the list is within the capacity, sorted
  ascending by \<open>idxNorm\<close>, and holds exactly \<open>n'\<close> dots of each of the masks 1, 2 and 4.
\<close>

theorem gen_color_bars_counts:
  assumes "3 \<le> DOT_CAP g"
  shows "int (length (gen_color_bars g n)) = 3 * max 1 (min (DOT_CAP g div 3) n)
       \<and> int (length (gen_color_bars g n)) \<le> DOT_CAP g
       \<and> sorted (map idxNorm (gen_color_bars g n))
       \<and> int (length (filter (\<lambda>d. rgbMask d = 1) (gen_color_bars g n)))
           = max 1 (min (DOT_CAP g div 3) n)
       \<and> int (length (filter (\<lambda>d. rgbMask d = 2) (gen_color_bars g n)))
           = max 1 (min (DOT_CAP g div 3) n)
       \<and> int (length (filter (\<lambda>d. rgbMask d = 4) (gen_color_bars g n)))
           = max 1 (min (DOT_CAP g div 3) n)"
proof -
  let ?n = "max 1 (min (DOT_CAP g div 3) n)"
  have "1 \<le> DOT_CAP g div 3" using assms by presburger
  then have cap: "3 * ?n \<le> DOT_CAP g" by auto
  have len: "int (length (gen_color_bars g n)) = 3 * ?n"
    by (simp add: gen_color_bars_all [OF assms] length_color_bar)
  have c1: "int (length (filter (\<lambda>d. rgbMask d = 1) (gen_color_bars g n))) = ?n"
    by (simp add: gen_color_bars_all [OF assms] filter_sort filter_color_bar length_color_bar)
  have c2: "int (length (filter (\<lambda>d. rgbMask d = 2) (gen_color_bars g n))) = ?n"
    by (simp add: gen_color_bars_all [OF assms] filter_sort filter_color_bar length_color_bar)
  have c4: "int (length (filter (\<lambda>d. rgbMask d = 4) (gen_color_bars g n))) = ?n"
    by (simp add: gen_color_bars_all [OF assms] filter_sort filter_color_bar length_color_bar)
  from len cap have "int (length (gen_color_bars g n)) \<le> DOT_CAP g" by linarith
  with len c1 c2 c4 sorted_gen_color_bars [of g n] show ?thesis by blast
qed

theorem gen_color_bars_counts_witness:
  "3 \<le> DOT_CAP globals_line364
   \<and> gen_color_bars globals_line364 2 =
     [\<lparr>idxNorm = 0, rgbMask = 1\<rparr>, \<lparr>idxNorm = 0, rgbMask = 2\<rparr>,
      \<lparr>idxNorm = 0, rgbMask = 4\<rparr>, \<lparr>idxNorm = 65535, rgbMask = 1\<rparr>,
      \<lparr>idxNorm = 65535, rgbMask = 2\<rparr>, \<lparr>idxNorm = 65535, rgbMask = 4\<rparr>]
   \<and> int (length (gen_color_bars globals_line364 2)) = 6
   \<and> int (length (gen_color_bars globals_line364 2)) \<le> DOT_CAP globals_line364
   \<and> sorted (map idxNorm (gen_color_bars globals_line364 2))
   \<and> int (length (filter (\<lambda>d. rgbMask d = 1) (gen_color_bars globals_line364 2))) = 2
   \<and> int (length (filter (\<lambda>d. rgbMask d = 2) (gen_color_bars globals_line364 2))) = 2
   \<and> int (length (filter (\<lambda>d. rgbMask d = 4) (gen_color_bars globals_line364 2))) = 2"
proof -
  have cap: "3 \<le> DOT_CAP globals_line364"
    by (simp add: cap_line364)
  have n: "max 1 (min (DOT_CAP globals_line364 div 3) 2) = 2"
    by (simp add: cap_line364)
  from gen_color_bars_counts [OF cap, of 2] cap gen_color_bars_example show ?thesis
    unfolding n by simp
qed


text \<open>
  C10. Once the module is loaded \<open>DOT_CAP\<close> is 1024, not the 100 of line 46: \<open>gen_line\<close>
  and \<open>gen_color_bars\<close> cap what they return at 1024 dots (\<open>gen_line\<close> reaches 1024,
  \<open>gen_color_bars\<close> reaches 1023), while a call of \<open>image_line_to_dots\<close> that leaves
  \<open>dot_cap\<close> out uses 100, the value bound when the function was defined. The two
  capacities differ.
\<close>

theorem dot_cap_rebinding:
  "DOT_CAP globals_line46 = 100
   \<and> DOT_CAP globals_line364 = 1024
   \<and> image_line_to_dots_default_dot_cap = 100
   \<and> image_line_to_dots_defaults lib path = image_line_to_dots lib path None 100 32 1 False
   \<and> int (length (gen_line globals_line364 n m)) \<le> 1024
   \<and> length (gen_line globals_line364 (max 1024 n) m) = 1024
   \<and> int (length (gen_color_bars globals_line364 k)) \<le> 1024
   \<and> length (gen_color_bars globals_line364 (max 341 k)) = 1023
   \<and> image_line_to_dots_default_dot_cap \<noteq> DOT_CAP globals_line364"
proof -
  have c46: "DOT_CAP globals_line46 = 100" by (simp add: globals_line46_def)
  have dflt: "image_line_to_dots_default_dot_cap = 100"
    by (simp add: image_line_to_dots_default_dot_cap_def c46)
  have call: "image_line_to_dots_defaults lib path
      = image_line_to_dots lib path None 100 32 1 False"
    by (simp add: image_line_to_dots_defaults_def dflt)
  have l1: "int (length (gen_line globals_line364 n m)) \<le> 1024"
    by (simp add: length_gen_line cap_line364)
  have l2: "length (gen_line globals_line364 (max 1024 n) m) = 1024"
    by (simp add: length_gen_line cap_line364)
  have three: "3 \<le> DOT_CAP globals_line364" by (simp add: cap_line364)
  have b1: "int (length (gen_color_bars globals_line364 k)) \<le> 1024"
    unfolding gen_color_bars_def Let_def cap_line364 by (rule length_slice_to) simp
  have "int (length (gen_color_bars globals_line364 (max 341 k))) = 1023"
    by (simp add: gen_color_bars_all [OF three] length_color_bar cap_line364)
  then have b2: "length (gen_color_bars globals_line364 (max 341 k)) = 1023"
    by linarith
  from c46 cap_line364 dflt call l1 l2 b1 b2 show ?thesis by simp
qed

theorem dot_cap_rebinding_witness:
  "DOT_CAP globals_line46 = 100
   \<and> DOT_CAP globals_line364 = 1024
   \<and> image_line_to_dots_default_dot_cap = 100
   \<and> image_line_to_dots_defaults
         \<lparr>img_to_rgb_array = (\<lambda>p. Inl IndexError), resize_bilinear = (\<lambda>rgb w. rgb),
          tone_map = (\<lambda>gam line. line)\<rparr> ''test.png''
       = image_line_to_dots
           \<lparr>img_to_rgb_array = (\<lambda>p. Inl IndexError), resize_bilinear = (\<lambda>rgb w. rgb),
            tone_map = (\<lambda>gam line. line)\<rparr> ''test.png'' None 100 32 1 False
   \<and> int (length (gen_line globals_line364 64 1)) \<le> 1024
   \<and> length (gen_line globals_line364 5000 1) = 1024
   \<and> int (length (gen_color_bars globals_line364 64)) \<le> 1024
   \<and> length (gen_color_bars globals_line364 5000) = 1023
   \<and> image_line_to_dots_default_dot_cap \<noteq> DOT_CAP globals_line364"
proof -
  have l: "max 1024 (5000::int) = 5000" and b: "max 341 (5000::int) = 5000" by simp_all
  have "length (gen_line globals_line364 5000 1) = 1024"
    using dot_cap_rebinding [of _ _ 5000 1 5000] unfolding l by blast
  moreover have "length (gen_color_bars globals_line364 5000) = 1023"
    using dot_cap_rebinding [of _ _ 5000 1 5000] unfolding b by blast
  ultimately show ?thesis
    using dot_cap_rebinding [of
        "\<lparr>img_to_rgb_array = (\<lambda>p. Inl IndexError), resize_bilinear = (\<lambda>rgb w. rgb),
          tone_map = (\<lambda>gam line. line)\<rparr>" "''test.png''" 64 1 64]
    by blast
qed

text \<open>
  C1. The claim: on an all-white image with threshold 0, \<open>image_line_to_dots\<close> returns a
  pair \<open>(dots, meta)\<close> with \<open>dot_cap\<close> dots of mask 7. The code, on an all-white image of
  width 4 with \<open>dot_cap = 4\<close> and threshold 0: the loop appends nothing, so \<open>dots\<close>
  stays empty, and the function returns the dictionary with the single entry
  \<open>status: autoscan_stopped\<close> instead of a pair.
\<close>

theorem image_line_to_dots_all_white:
  "image_line_to_dots
       \<lparr>img_to_rgb_array = (\<lambda>p. Inr (replicate 2 (replicate 4 (255, 255, 255)))),
        resize_bilinear = (\<lambda>rgb w. rgb), tone_map = (\<lambda>gam line. line)\<rparr>
       ''white.png'' None 4 0 1 False
     = Inr (Dict [(''status'', JStr ''autoscan_stopped'')])
   \<and> line_loop 0 (replicate 4 (255, 255, 255)) [] = []"
  by (simp add: image_line_to_dots_def scale_image_for_dots_def width_def Let_def
      line_loop_keeps)

text \<open>
  C4. The claim: a malformed entry is skipped and the well-formed entries are kept. The
  code, on a list whose first entry has \<open>null\<close> for \<open>idxNorm\<close> and whose second entry
  is well formed: \<open>int(None)\<close> raises \<open>TypeError\<close> out of \<open>parse_dots_json\<close>, and the
  second entry, which alone parses to one dot, is lost with the whole list.
\<close>

theorem parse_dots_json_bad_field:
  "parse_dots_json
       (\<lambda>s. Inr (JList [JObj [(''idxNorm'', JInt 5), (''rgbMask'', JInt 1)]]))
       globals_line364 ''bad''
     = Inr ([\<lparr>idxNorm = 5, rgbMask = 1\<rparr>], ''ok (1 dots)'')
   \<and> parse_dots_json
       (\<lambda>s. Inr (JList [JObj [(''idxNorm'', JNull), (''rgbMask'', JInt 1)],
                         JObj [(''idxNorm'', JInt 5), (''rgbMask'', JInt 1)]]))
       globals_line364 ''bad''
     = Inl TypeError"
  by (simp add: parse_dots_json_def strip_bad dict_get_def str_of_nat_1 cap_line364)

text \<open>
  C6. When 1001 non-empty lines are read and published into the empty receive queue of
  capacity 1000 and nothing is taken out, the queue holds the device lines of the last
  1000 reads in their order: the first line is gone. \<open>get_recent_lines\<close> with
  \<open>max_lines = 1000\<close> then returns them all and leaves the queue as it was. Publishing
  uses only \<open>put_nowait\<close> and \<open>get_nowait\<close>, so \<open>reader_loop\<close> is a total function that
  never waits on the queue.
\<close>

theorem rxq_overflow_keeps_newest:
  assumes "length lines = 1001" and "[] \<notin> snd ` set lines"
  shows "reader_loop json_loads (map (\<lambda>e. (fst e, Line (snd e))) lines) []
           = map (\<lambda>e. device_line json_loads (fst e) (snd e)) (tl lines)
       \<and> length (reader_loop json_loads (map (\<lambda>e. (fst e, Line (snd e))) lines) []) = 1000
       \<and> get_recent_lines
            (c\<lparr>rxq := reader_loop json_loads (map (\<lambda>e. (fst e, Line (snd e))) lines) [],
               incoming := []\<rparr>) 1000
           = (map (\<lambda>e. device_line json_loads (fst e) (snd e)) (tl lines),
              c\<lparr>rxq := reader_loop json_loads (map (\<lambda>e. (fst e, Line (snd e))) lines) [],
                incoming := []\<rparr>)"
proof -
  let ?q = "reader_loop json_loads (map (\<lambda>e. (fst e, Line (snd e))) lines) []"
  let ?c = "c\<lparr>rxq := ?q, incoming := []\<rparr>"
  have q: "?q = map (\<lambda>e. device_line json_loads (fst e) (snd e)) (tl lines)"
    using assms by (rule reader_loop_overflow)
  have len: "length ?q = 1000"
    using assms(1) by (simp add: q)
  have quiet: "reader_runs ?c = ?c"
    by (simp add: reader_runs_quiet)
  have "get_recent_lines ?c 1000 = (slice_last ?q 1000, ?c)"
    using len get_recent_lines_snapshot [of ?c 1000] by (simp add: quiet)
  moreover have "slice_last ?q 1000 = ?q"
    using len by (simp add: slice_last_all)
  ultimately show ?thesis
    using q len by simp
qed

theorem rxq_overflow_keeps_newest_witness:
  "length (map (\<lambda>i. (int i, ''ok'')) [0..<1001]) = 1001
   \<and> [] \<notin> snd ` set (map (\<lambda>i. (int i, ''ok'')) [0..<1001])
   \<and> reader_loop (\<lambda>s. Inl ''no JSON'')
         (map (\<lambda>e. (fst e, Line (snd e))) (map (\<lambda>i. (int i, ''ok'')) [0..<1001])) []
       = map (\<lambda>e. device_line (\<lambda>s. Inl ''no JSON'') (fst e) (snd e))
           (tl (map (\<lambda>i. (int i, ''ok'')) [0..<1001]))
   \<and> length (reader_loop (\<lambda>s. Inl ''no JSON'')
         (map (\<lambda>e. (fst e, Line (snd e))) (map (\<lambda>i. (int i, ''ok'')) [0..<1001])) []) = 1000"
proof -
  have h1: "length (map (\<lambda>i. (int i, ''ok'')) [0..<1001]) = 1001" by simp
  have h2: "[] \<notin> snd ` set (map (\<lambda>i. (int i, ''ok'')) [0..<1001])" by auto
  from rxq_overflow_keeps_newest [OF h1 h2] h1 h2 show ?thesis by blast
qed

text \<open>
  C5, as amended. When the link is open, no line in the receive queue carries a parsed
  JSON object, and the reader publishes no such line before the timeout plus one
  polling interval (50 ms) has passed, \<open>send_json\<close> with \<open>wait_json = True\<close> writes the
  payload and returns the device line whose \<open>obj\<close> is the dictionary \<open>error: timeout\<close>.
  It returns no earlier than the deadline and less than one polling interval after it
  (after the call, when the timeout is not positive).
\<close>

theorem send_json_timeout:
  assumes "ser c = Some l" and "is_open l"
    and "\<forall>dl \<in> set (rxq c). obj dl = None"
    and "\<forall>dl \<in> set (incoming c). obj dl = None \<or> now c + timeout_ms + 50 \<le> t dl"
  shows "\<exists>c'. send_json c payload True timeout_ms
               = Inr (\<lparr>t = now c', raw = ''(timeout waiting for JSON)'',
                       obj = Some (JObj [(''error'', JStr ''timeout'')])\<rparr>, c')
             \<and> ser c' = Some (l\<lparr>tx := tx l @ [payload]\<rparr>)
             \<and> now c + timeout_ms \<le> now c'
             \<and> now c' < now c + max 0 timeout_ms + 50"
proof -
  let ?c1 = "c\<lparr>ser := Some (l\<lparr>tx := tx l @ [payload]\<rparr>)\<rparr>"
  have q: "\<forall>dl \<in> set (rxq ?c1). obj dl = None" using assms(3) by simp
  have w: "\<forall>dl \<in> set (incoming ?c1). obj dl = None \<or> now ?c1 + timeout_ms + 50 \<le> t dl"
    using assms(4) by simp
  from wait_json_loop_timeout [OF q w] obtain c' where
    r: "wait_json_loop (now ?c1 + timeout_ms) ?c1 =
            (\<lparr>t = now c', raw = ''(timeout waiting for JSON)'',
              obj = Some (JObj [(''error'', JStr ''timeout'')])\<rparr>, c')"
    and s: "ser c' = ser ?c1" and lo: "now ?c1 + timeout_ms \<le> now c'"
    and hi: "now c' < max (now ?c1 + 1) (now ?c1 + timeout_ms + 50)"
    by blast
  have "send_json c payload True timeout_ms = Inr (wait_json_loop (now ?c1 + timeout_ms) ?c1)"
    using assms(1,2) by (simp add: send_json_def)
  with r s lo hi show ?thesis
    by (intro exI [of _ c']) auto
qed

theorem send_json_timeout_witness:
  "ser \<lparr>ser = Some \<lparr>is_open = True, tx = []\<rparr>,
        rxq = [\<lparr>t = 1, raw = ''boot'', obj = None\<rparr>], now = 10,
        incoming = [\<lparr>t = 30, raw = ''noise'', obj = None\<rparr>,
                    \<lparr>t = 1100, raw = ''{ok}'', obj = Some (JObj [(''ok'', JBool True)])\<rparr>]\<rparr>
     = Some \<lparr>is_open = True, tx = []\<rparr>
   \<and> is_open \<lparr>is_open = True, tx = []\<rparr>
   \<and> (\<exists>c'. send_json
               \<lparr>ser = Some \<lparr>is_open = True, tx = []\<rparr>,
                rxq = [\<lparr>t = 1, raw = ''boot'', obj = None\<rparr>], now = 10,
                incoming = [\<lparr>t = 30, raw = ''noise'', obj = None\<rparr>,
                    \<lparr>t = 1100, raw = ''{ok}'', obj = Some (JObj [(''ok'', JBool True)])\<rparr>]\<rparr>
               (JObj [(''cmd'', JStr ''status'')]) True 1000
             = Inr (\<lparr>t = now c', raw = ''(timeout waiting for JSON)'',
                     obj = Some (JObj [(''error'', JStr ''timeout'')])\<rparr>, c')
           \<and> ser c' = Some \<lparr>is_open = True, tx = [JObj [(''cmd'', JStr ''status'')]]\<rparr>
           \<and> 1010 \<le> now c'
           \<and> now c' < 1060)"
  using send_json_timeout [of
      "\<lparr>ser = Some \<lparr>is_open = True, tx = []\<rparr>,
        rxq = [\<lparr>t = 1, raw = ''boot'', obj = None\<rparr>], now = 10,
        incoming = [\<lparr>t = 30, raw = ''noise'', obj = None\<rparr>,
                    \<lparr>t = 1100, raw = ''{ok}'', obj = Some (JObj [(''ok'', JBool True)])\<rparr>]\<rparr>"
      "\<lparr>is_open = True, tx = []\<rparr>" 1000 "JObj [(''cmd'', JStr ''status'')]"]
  by simp

text \<open>
  C5 as stated asks only that no JSON line is queued before the timeout has passed.
  That is not enough: the last \<open>get\<close> starts before the deadline and waits up to 50 ms,
  so a JSON line that is published after the deadline but within that wait is returned
  as the reply. Here the timeout of 1000 ms ends at time 1000, a line without JSON at
  time 30 moves the polls to 30, 80, ..., 980, and the JSON line published at time 1010
  is what \<open>send_json\<close> returns.
\<close>

theorem send_json_late_reply:
  "send_json
       \<lparr>ser = Some \<lparr>is_open = True, tx = []\<rparr>, rxq = [], now = 0,
        incoming = [\<lparr>t = 30, raw = ''boot'', obj = None\<rparr>,
                    \<lparr>t = 1010, raw = ''{ok}'', obj = Some (JObj [(''ok'', JBool True)])\<rparr>]\<rparr>
       (JObj [(''cmd'', JStr ''status'')]) True 1000
     = Inr (\<lparr>t = 1010, raw = ''{ok}'', obj = Some (JObj [(''ok'', JBool True)])\<rparr>,
            \<lparr>ser = Some \<lparr>is_open = True, tx = [JObj [(''cmd'', JStr ''status'')]]\<rparr>,
             rxq = [], now = 1010, incoming = []\<rparr>)"
  by (simp add: send_json_def wait_json_loop.simps rxq_get_def reader_runs_def Let_def)

text \<open>
  C2. The claim: a line without a parsed JSON object that the reply wait of \<open>send_json\<close>
  skips stays in the queue for \<open>get_recent_lines\<close>. The code, with the queue holding the
  line \<open>boot\<close> (no JSON object) followed by a JSON reply and nothing else arriving:
  before the call \<open>get_recent_lines\<close> shows both lines; \<open>send_json\<close> returns the reply
  and leaves the queue empty; afterwards \<open>get_recent_lines\<close> shows nothing: the skipped
  line is lost.
\<close>

theorem send_json_drops_skipped_lines:
  "get_recent_lines
       \<lparr>ser = Some \<lparr>is_open = True, tx = []\<rparr>,
        rxq = [\<lparr>t = 1, raw = ''boot'', obj = None\<rparr>,
               \<lparr>t = 2, raw = ''{ok}'', obj = Some (JObj [(''ok'', JBool True)])\<rparr>],
        now = 10, incoming = []\<rparr> 200
     = ([\<lparr>t = 1, raw = ''boot'', obj = None\<rparr>,
         \<lparr>t = 2, raw = ''{ok}'', obj = Some (JObj [(''ok'', JBool True)])\<rparr>],
        \<lparr>ser = Some \<lparr>is_open = True, tx = []\<rparr>,
         rxq = [\<lparr>t = 1, raw = ''boot'', obj = None\<rparr>,
                \<lparr>t = 2, raw = ''{ok}'', obj = Some (JObj [(''ok'', JBool True)])\<rparr>],
         now = 10, incoming = []\<rparr>)
   \<and> send_json
       \<lparr>ser = Some \<lparr>is_open = True, tx = []\<rparr>,
        rxq = [\<lparr>t = 1, raw = ''boot'', obj = None\<rparr>,
               \<lparr>t = 2, raw = ''{ok}'', obj = Some (JObj [(''ok'', JBool True)])\<rparr>],
        now = 10, incoming = []\<rparr>
       (JObj [(''cmd'', JStr ''status'')]) True 1000
     = Inr (\<lparr>t = 2, raw = ''{ok}'', obj = Some (JObj [(''ok'', JBool True)])\<rparr>,
            \<lparr>ser = Some \<lparr>is_open = True, tx = [JObj [(''cmd'', JStr ''status'')]]\<rparr>,
             rxq = [], now = 10, incoming = []\<rparr>)
   \<and> get_recent_lines
       \<lparr>ser = Some \<lparr>is_open = True, tx = [JObj [(''cmd'', JStr ''status'')]]\<rparr>,
        rxq = [], now = 10, incoming = []\<rparr> 200
     = ([], \<lparr>ser = Some \<lparr>is_open = True, tx = [JObj [(''cmd'', JStr ''status'')]]\<rparr>,
             rxq = [], now = 10, incoming = []\<rparr>)"
  by (simp add: send_json_def wait_json_loop.simps rxq_get_def get_recent_lines_def
      reader_runs_def Let_def put_nowait_def rxq_maxsize_def slice_last_def)

text \<open>
  C9. Against the scheduler modelled from the spec: while a session is Running, a call of
  \<open>start_auto_image_scan\<close>, directly or through \<open>ui_start_autoscan\<close>, is rejected with
  \<open>AlreadyRunning\<close> and leaves the one running session exactly as it was.
\<close>

theorem second_start_rejected:
  assumes "is_running st"
  shows "start_auto_image_scan st last_row image_path first_line last_line interval
             threshold gamma serpentine do_swap loop
           = (Inl AlreadyRunning, st)
       \<and> ui_start_autoscan st last_row image_path first_line ui_last_line interval
             threshold gamma serpentine do_swap loop
           = (Inl AlreadyRunning, st)"
  using assms by (simp add: start_auto_image_scan_def ui_start_autoscan_def)

theorem second_start_rejected_witness:
  "start_auto_image_scan None 99 ''a.png'' 0 None 50 32 1 False True True
     = (Inr (), Some \<lparr>image_ref = ''a.png'', current_line = 0, start_line = 0, end_line = 99,
                       interval_ms = 50, loop_flag = True, running = True\<rparr>)
   \<and> is_running (Some \<lparr>image_ref = ''a.png'', current_line = 0, start_line = 0, end_line = 99,
                       interval_ms = 50, loop_flag = True, running = True\<rparr>)
   \<and> start_auto_image_scan
         (Some \<lparr>image_ref = ''a.png'', current_line = 0, start_line = 0, end_line = 99,
                interval_ms = 50, loop_flag = True, running = True\<rparr>)
         49 ''b.png'' 5 (Some 20) 10 64 1 False True False
       = (Inl AlreadyRunning,
          Some \<lparr>image_ref = ''a.png'', current_line = 0, start_line = 0, end_line = 99,
                interval_ms = 50, loop_flag = True, running = True\<rparr>)
   \<and> ui_start_autoscan
         (Some \<lparr>image_ref = ''a.png'', current_line = 0, start_line = 0, end_line = 99,
                interval_ms = 50, loop_flag = True, running = True\<rparr>)
         49 ''b.png'' 5 (Some (Finite 20)) 10 64 1 False True False
       = (Inl AlreadyRunning,
          Some \<lparr>image_ref = ''a.png'', current_line = 0, start_line = 0, end_line = 99,
                interval_ms = 50, loop_flag = True, running = True\<rparr>)"
proof -
  have r: "is_running (Some \<lparr>image_ref = ''a.png'', current_line = 0, start_line = 0,
      end_line = 99, interval_ms = 50, loop_flag = True, running = True\<rparr>)"
    by (simp add: is_running_def)
  have s: "start_auto_image_scan None 99 ''a.png'' 0 None 50 32 1 False True True
     = (Inr (), Some \<lparr>image_ref = ''a.png'', current_line = 0, start_line = 0, end_line = 99,
                       interval_ms = 50, loop_flag = True, running = True\<rparr>)"
    by (simp add: start_auto_image_scan_def is_running_def)
  from second_start_rejected [OF r, of 49 "''b.png''" 5 "Some 20" 10 64 1 False True False
      "Some (Finite 20)"]
    r s show ?thesis by blast
qed

end
